theory Spec2Isabelle
  imports Main "HOL-Library.Char_ord" "HOL-Library.List_Lexorder"
begin

section \<open>The ordered-map primitive (std::map)\<close>

text \<open>
  bimap.h composes two \<^verbatim>\<open>std::map\<close> objects. A \<^verbatim>\<open>std::map\<close> is
  represented by its in-order sequence of (key, mapped value) nodes; an iterator is the
  position of a node in that sequence, and the past-the-end iterator is the length of the
  sequence. Keys are compared with \<open><\<close> of a linear order, as \<^verbatim>\<open>std::less\<close> does.
\<close>

type_synonym ('a, 'b) std_map = "('a \<times> 'b) list"

text \<open>\<^verbatim>\<open>std::out_of_range\<close>, the only exception the class can throw.\<close>

datatype error = OutOfRange

text \<open>The representation invariant of a \<^verbatim>\<open>std::map\<close>: keys strictly ascending.\<close>

definition map_ok :: "('a::linorder, 'b) std_map \<Rightarrow> bool" where
  "map_ok m = sorted_wrt (<) (map fst m)"

text \<open>\<^verbatim>\<open>m.find(k)\<close>: the position of the node with key \<open>k\<close>, or the end position.\<close>

fun map_find :: "('a, 'b) std_map \<Rightarrow> 'a \<Rightarrow> nat" where
  "map_find [] k = 0"
| "map_find (p # ps) k = (if fst p = k then 0 else Suc (map_find ps k))"

definition map_end :: "('a, 'b) std_map \<Rightarrow> nat" where
  "map_end m = length m"

text \<open>\<^verbatim>\<open>m[k] = v\<close>: \<^verbatim>\<open>operator[]\<close> creates the node when the key is absent, the
  assignment then stores \<open>v\<close> in it.\<close>

fun map_assign :: "('a::linorder, 'b) std_map \<Rightarrow> 'a \<Rightarrow> 'b \<Rightarrow> ('a, 'b) std_map" where
  "map_assign [] k v = [(k, v)]"
| "map_assign (p # ps) k v =
     (if k < fst p then (k, v) # p # ps
      else if fst p < k then p # map_assign ps k v
      else (k, v) # ps)"

text \<open>\<^verbatim>\<open>m.erase(it)\<close> for an iterator, \<^verbatim>\<open>m.erase(k)\<close> for a key.\<close>

definition map_erase_it :: "('a, 'b) std_map \<Rightarrow> nat \<Rightarrow> ('a, 'b) std_map" where
  "map_erase_it m it = take it m @ drop (Suc it) m"

definition map_erase_key :: "('a, 'b) std_map \<Rightarrow> 'a \<Rightarrow> ('a, 'b) std_map" where
  "map_erase_key m k =
     (let it = map_find m k in if it = map_end m then m else map_erase_it m it)"

text \<open>\<^verbatim>\<open>m.at(k)\<close>: the mapped value, or \<^verbatim>\<open>std::out_of_range\<close>.\<close>

definition map_at :: "('a, 'b) std_map \<Rightarrow> 'a \<Rightarrow> error + 'b" where
  "map_at m k =
     (let it = map_find m k in if it = map_end m then Inl OutOfRange else Inr (snd (m ! it)))"

section \<open>The class Bimap\<close>

record ('k, 'v) Bimap =
  m_map :: "('k, 'v) std_map"
  m_mapInversed :: "('v, 'k) std_map"

definition clear :: "('k, 'v) Bimap \<Rightarrow> ('k, 'v) Bimap" where
  "clear b = b\<lparr>m_map := [], m_mapInversed := []\<rparr>"

text \<open>\<^verbatim>\<open>Bimap()\<close>: both members are default-constructed, then \<^verbatim>\<open>clear()\<close> runs.\<close>

definition Bimap_default :: "('k, 'v) Bimap" where
  "Bimap_default = clear \<lparr>m_map = [], m_mapInversed = []\<rparr>"

definition empty_bimap :: "('k, 'v) Bimap \<Rightarrow> bool" where
  "empty_bimap b = (m_map b = [])"

text \<open>\<^verbatim>\<open>size()\<close> returns \<^verbatim>\<open>m_map.size()\<close>, a \<^verbatim>\<open>std::size_t\<close>; the count of nodes
  of a map in memory is below \<^verbatim>\<open>max_size()\<close>, so no wrap-around arises.\<close>

definition size_bimap :: "('k, 'v) Bimap \<Rightarrow> nat" where
  "size_bimap b = length (m_map b)"

definition insert_bimap ::
  "('k::linorder, 'v::linorder) Bimap \<Rightarrow> 'k \<Rightarrow> 'v \<Rightarrow> ('k, 'v) Bimap" where
  "insert_bimap b key val =
     (let b1 = b\<lparr>m_map := map_assign (m_map b) key val\<rparr>
      in b1\<lparr>m_mapInversed := map_assign (m_mapInversed b1) val key\<rparr>)"

text \<open>The two private overloads taking a node.\<close>

definition insert_node ::
  "('k::linorder, 'v::linorder) Bimap \<Rightarrow> 'k \<times> 'v \<Rightarrow> ('k, 'v) Bimap" where
  "insert_node b node = insert_bimap b (fst node) (snd node)"

definition erase :: "('k, 'v) Bimap \<Rightarrow> 'k \<Rightarrow> ('k, 'v) Bimap" where
  "erase b key =
     (let it = map_find (m_map b) key
      in if it = map_end (m_map b) then b
         else (let b1 = b\<lparr>m_mapInversed := map_erase_key (m_mapInversed b) (snd (m_map b ! it))\<rparr>
               in b1\<lparr>m_map := map_erase_it (m_map b1) it\<rparr>))"

definition getValue :: "('k, 'v) Bimap \<Rightarrow> 'k \<Rightarrow> error + 'v" where
  "getValue b key = map_at (m_map b) key"

definition getKey :: "('k, 'v) Bimap \<Rightarrow> 'v \<Rightarrow> error + 'k" where
  "getKey b val = map_at (m_mapInversed b) val"

text \<open>The constructor from an initializer list: a loop calling \<^verbatim>\<open>insert(*it)\<close>.\<close>

fun Bimap_loop ::
  "('k::linorder, 'v::linorder) Bimap \<Rightarrow> ('k \<times> 'v) list \<Rightarrow> ('k, 'v) Bimap" where
  "Bimap_loop b [] = b"
| "Bimap_loop b (node # args) = Bimap_loop (insert_node b node) args"

definition Bimap_init :: "('k \<times> 'v) list \<Rightarrow> ('k::linorder, 'v::linorder) Bimap" where
  "Bimap_init args = Bimap_loop \<lparr>m_map = [], m_mapInversed = []\<rparr> args"

text \<open>A state of the class: both members are well-formed maps.\<close>

definition bimap_ok :: "('k::linorder, 'v::linorder) Bimap \<Rightarrow> bool" where
  "bimap_ok b = (map_ok (m_map b) \<and> map_ok (m_mapInversed b))"

text \<open>The fixture of bimap_tests.cpp, a \<^verbatim>\<open>Bimap<int, std::string>\<close>. Strings are
  compared as \<^verbatim>\<open>std::string\<close> compares them: lexicographically, by character code.\<close>

definition m_mapNumberToString :: "(int, string) Bimap" where
  "m_mapNumberToString = Bimap_init [(1, ''ONE''), (2, ''TWO''), (3, ''THREE'')]"

text \<open>Construction as the specification words it: starting from the empty bimap,
  \<^verbatim>\<open>insert(k, v)\<close> for each pair of the sequence, in order.\<close>

definition spec_construct :: "('k \<times> 'v) list \<Rightarrow> ('k::linorder, 'v::linorder) Bimap" where
  "spec_construct ps = foldl (\<lambda>b (k, v). insert_bimap b k v) Bimap_default ps"

section \<open>Iterators and traversal\<close>

text \<open>
  All iterators of the class are iterators of \<^verbatim>\<open>m_map\<close>, hence positions in its in-order
  sequence. A reverse iterator is stored as its base position \<open>r\<close>: it designates the node
  at \<open>r - 1\<close>, and incrementing it decrements the base, as \<^verbatim>\<open>std::reverse_iterator\<close>
  does. \<^verbatim>\<open>cbegin\<close>, \<^verbatim>\<open>cend\<close>, \<^verbatim>\<open>crbegin\<close> and \<^verbatim>\<open>crend\<close> return the same positions.
\<close>

definition begin_bimap :: "('k, 'v) Bimap \<Rightarrow> nat" where
  "begin_bimap b = 0"

definition end_bimap :: "('k, 'v) Bimap \<Rightarrow> nat" where
  "end_bimap b = map_end (m_map b)"

definition rbegin :: "('k, 'v) Bimap \<Rightarrow> nat" where
  "rbegin b = map_end (m_map b)"

definition rend :: "('k, 'v) Bimap \<Rightarrow> nat" where
  "rend b = 0"

definition deref :: "('k, 'v) Bimap \<Rightarrow> nat \<Rightarrow> 'k \<times> 'v" where
  "deref b it = m_map b ! it"

definition rderef :: "('k, 'v) Bimap \<Rightarrow> nat \<Rightarrow> 'k \<times> 'v" where
  "rderef b r = m_map b ! (r - 1)"

text \<open>
  The caller's loops \<^verbatim>\<open>for (it = begin(); it != end(); ++it)\<close> and
  \<^verbatim>\<open>for (r = rbegin(); r != rend(); ++r)\<close>, collecting the nodes visited. A position
  reached from \<^verbatim>\<open>begin()\<close> never passes \<^verbatim>\<open>end()\<close>, so the guard \<open>it \<noteq> e\<close> is written
  \<open>it < e\<close>, which makes the recursion terminate whatever the arguments.
\<close>

function ascending :: "('k, 'v) Bimap \<Rightarrow> nat \<Rightarrow> nat \<Rightarrow> ('k \<times> 'v) list" where
  "ascending b it e = (if it < e then deref b it # ascending b (Suc it) e else [])"
  by pat_completeness auto
termination
  by (relation "measure (\<lambda>(b, it, e). e - it)") auto

function descending :: "('k, 'v) Bimap \<Rightarrow> nat \<Rightarrow> nat \<Rightarrow> ('k \<times> 'v) list" where
  "descending b r e = (if e < r then rderef b r # descending b (r - 1) e else [])"
  by pat_completeness auto
termination
  by (relation "measure (\<lambda>(b, r, e). r - e)") auto

declare ascending.simps [simp del] descending.simps [simp del]

section \<open>Sequences of operations\<close>

datatype ('k, 'v) operation = Insert 'k 'v | Erase 'k

fun apply_op ::
  "('k::linorder, 'v::linorder) Bimap \<Rightarrow> ('k, 'v) operation \<Rightarrow> ('k, 'v) Bimap" where
  "apply_op b (Insert k v) = insert_bimap b k v"
| "apply_op b (Erase k) = erase b k"

definition run :: "('k, 'v) operation list \<Rightarrow> ('k::linorder, 'v::linorder) Bimap" where
  "run ops = foldl apply_op Bimap_default ops"

text \<open>
  A sequence of operations run from state \<open>b\<close> is collision free when every
  \<^verbatim>\<open>insert(k, v)\<close> meets a state where \<open>k\<close> is absent or already maps to \<open>v\<close>, and
  \<open>v\<close> is absent or already maps to \<open>k\<close>.
\<close>

fun collision_free ::
  "('k::linorder, 'v::linorder) Bimap \<Rightarrow> ('k, 'v) operation list \<Rightarrow> bool" where
  "collision_free b [] = True"
| "collision_free b (Insert k v # ops) =
     ((getValue b k = Inl OutOfRange \<or> getValue b k = Inr v)
      \<and> (getKey b v = Inl OutOfRange \<or> getKey b v = Inr k)
      \<and> collision_free (insert_bimap b k v) ops)"
| "collision_free b (Erase k # ops) = collision_free (erase b k) ops"

text \<open>
  The two maps mirror each other: \<open>k\<close> maps to \<open>v\<close> exactly when \<open>v\<close> maps to \<open>k\<close>.
\<close>

definition mirrored :: "('k::linorder, 'v::linorder) Bimap \<Rightarrow> bool" where
  "mirrored b \<longleftrightarrow>
     bimap_ok b \<and> (\<forall>k v. map_of (m_map b) k = Some v \<longleftrightarrow> map_of (m_mapInversed b) v = Some k)"

section \<open>Facts about the ordered-map primitive\<close>

lemma map_find_le: "map_find m k \<le> length m"
  by (induction m) auto

lemma map_find_end_iff: "map_find m k = length m \<longleftrightarrow> k \<notin> fst ` set m"
proof (induction m)
  case Nil
  show ?case by simp
next
  case (Cons p ps)
  have "map_find ps k \<le> length ps" by (rule map_find_le)
  with Cons show ?case by auto
qed

lemma map_find_nth:
  "map_of m k = Some v \<Longrightarrow> m ! map_find m k = (k, v)"
  by (induction m) (auto split: if_splits)

lemma map_at_map_of:
  "map_at m k = (case map_of m k of None \<Rightarrow> Inl OutOfRange | Some v \<Rightarrow> Inr v)"
proof (cases "map_of m k")
  case None
  then have "k \<notin> fst ` set m" by (simp add: map_of_eq_None_iff)
  then have "map_find m k = length m" by (simp add: map_find_end_iff)
  with None show ?thesis by (simp add: map_at_def map_end_def)
next
  case (Some v)
  then have "k \<in> fst ` set m" by (metis map_of_eq_None_iff option.distinct(1))
  then have "map_find m k \<noteq> length m" by (simp add: map_find_end_iff)
  with Some map_find_nth[OF Some] show ?thesis by (simp add: map_at_def map_end_def)
qed

lemma map_ok_Cons: "map_ok (p # ps) \<longleftrightarrow> (\<forall>q \<in> set ps. fst p < fst q) \<and> map_ok ps"
  by (auto simp: map_ok_def)

lemma map_ok_distinct: "map_ok m \<Longrightarrow> distinct (map fst m)"
  by (induction m) (auto simp: map_ok_Cons)

lemma map_of_map_assign: "map_of (map_assign m k v) = (map_of m)(k \<mapsto> v)"
  by (induction m) (auto simp: fun_eq_iff)

lemma set_map_assign: "set (map_assign m k v) \<subseteq> insert (k, v) (set m)"
  by (induction m) auto

lemma keys_map_assign: "fst ` set (map_assign m k v) = insert k (fst ` set m)"
  by (induction m) auto

lemma map_ok_map_assign: "map_ok m \<Longrightarrow> map_ok (map_assign m k v)"
proof (induction m)
  case Nil
  show ?case by (simp add: map_ok_def)
next
  case (Cons p ps)
  then have ps: "map_ok (map_assign ps k v)" and lt: "\<forall>q \<in> set ps. fst p < fst q"
    by (simp_all add: map_ok_Cons)
  show ?case
  proof (cases "k < fst p")
    case True
    with Cons.prems lt show ?thesis by (auto simp: map_ok_Cons)
  next
    case False
    show ?thesis
    proof (cases "fst p < k")
      case True
      have "\<forall>q \<in> set (map_assign ps k v). fst p < fst q"
        using set_map_assign[of ps k v] lt True by auto
      with True False ps show ?thesis by (simp add: map_ok_Cons)
    next
      case nlt: False
      with False have "k = fst p" by simp
      with Cons.prems show ?thesis by (simp add: map_ok_Cons)
    qed
  qed
qed

lemma length_map_assign:
  "map_ok m \<Longrightarrow>
   length (map_assign m k v) = (if k \<in> fst ` set m then length m else Suc (length m))"
proof (induction m)
  case Nil
  show ?case by simp
next
  case (Cons p ps)
  then have lt: "\<forall>q \<in> set ps. fst p < fst q" and ok: "map_ok ps"
    by (simp_all add: map_ok_Cons)
  show ?case
  proof (cases "k < fst p")
    case True
    with lt have "k \<notin> fst ` set (p # ps)" by fastforce
    with True show ?thesis by simp
  next
    case False
    show ?thesis
    proof (cases "fst p < k")
      case True
      with False Cons.IH[OF ok] show ?thesis by auto
    next
      case nlt: False
      with False have "k = fst p" by simp
      then show ?thesis by simp
    qed
  qed
qed

lemma map_erase_it_find:
  "distinct (map fst m) \<Longrightarrow> map_erase_it m (map_find m k) = filter (\<lambda>p. fst p \<noteq> k) m"
proof (induction m)
  case Nil
  show ?case by (simp add: map_erase_it_def)
next
  case (Cons p ps)
  show ?case
  proof (cases "fst p = k")
    case True
    from Cons.prems have "fst p \<notin> fst ` set ps" by simp
    with True have "\<forall>q \<in> set ps. fst q \<noteq> k" by (auto simp: image_iff)
    then have "filter (\<lambda>p. fst p \<noteq> k) ps = ps" by (simp add: filter_id_conv)
    with True show ?thesis by (simp add: map_erase_it_def)
  next
    case False
    with Cons show ?thesis by (simp add: map_erase_it_def)
  qed
qed

lemma map_erase_key_filter:
  "distinct (map fst m) \<Longrightarrow> map_erase_key m k = filter (\<lambda>p. fst p \<noteq> k) m"
proof (cases "map_find m k = length m")
  case True
  then have "\<forall>q \<in> set m. fst q \<noteq> k" by (auto simp: map_find_end_iff)
  then have "filter (\<lambda>p. fst p \<noteq> k) m = m" by (simp add: filter_id_conv)
  with True show ?thesis by (simp add: map_erase_key_def map_end_def)
next
  case False
  assume "distinct (map fst m)"
  from map_erase_it_find[OF this] False show ?thesis
    by (simp add: map_erase_key_def map_end_def)
qed

lemma map_ok_filter: "map_ok m \<Longrightarrow> map_ok (filter P m)"
  by (induction m) (auto simp: map_ok_Cons)

lemma map_of_filter_key:
  "map_of (filter (\<lambda>p. fst p \<noteq> k) m) = (map_of m)(k := None)"
  by (induction m) (auto simp: fun_eq_iff)

lemma keys_filter_key: "fst ` set (filter (\<lambda>p. fst p \<noteq> k) m) = fst ` set m - {k}"
  by (induction m) auto

lemma map_at_Inl_iff: "map_at m k = Inl OutOfRange \<longleftrightarrow> k \<notin> fst ` set m"
  by (simp add: map_at_def map_end_def Let_def map_find_end_iff)

lemma map_at_Inr_iff: "map_at m k = Inr v \<longleftrightarrow> map_of m k = Some v"
  by (simp add: map_at_map_of split: option.splits)

lemma map_at_Inr_mem: "distinct (map fst m) \<Longrightarrow> map_at m k = Inr v \<longleftrightarrow> (k, v) \<in> set m"
  by (simp add: map_at_Inr_iff)

section \<open>Facts about the class\<close>

lemma bimap_ok_default: "bimap_ok Bimap_default"
  by (simp add: bimap_ok_def Bimap_default_def clear_def map_ok_def)

lemma bimap_ok_insert: "bimap_ok b \<Longrightarrow> bimap_ok (insert_bimap b k v)"
  by (simp add: bimap_ok_def insert_bimap_def Let_def map_ok_map_assign)

lemma erase_filter:
  assumes "bimap_ok b"
  shows "erase b k =
    (case map_of (m_map b) k of
       None \<Rightarrow> b
     | Some v \<Rightarrow> b\<lparr>m_mapInversed := filter (\<lambda>p. fst p \<noteq> v) (m_mapInversed b),
                  m_map := filter (\<lambda>p. fst p \<noteq> k) (m_map b)\<rparr>)"
proof (cases "map_of (m_map b) k")
  case None
  then have "k \<notin> fst ` set (m_map b)" by (simp add: map_of_eq_None_iff)
  then have "map_find (m_map b) k = length (m_map b)" by (simp add: map_find_end_iff)
  with None show ?thesis by (simp add: erase_def map_end_def)
next
  case (Some v)
  from assms have d1: "distinct (map fst (m_map b))" and d2: "distinct (map fst (m_mapInversed b))"
    by (simp_all add: bimap_ok_def map_ok_distinct)
  from Some have "k \<in> fst ` set (m_map b)" by (metis map_of_eq_None_iff option.distinct(1))
  then have ne: "map_find (m_map b) k \<noteq> length (m_map b)" by (simp add: map_find_end_iff)
  from ne Some map_find_nth[OF Some] show ?thesis
    by (simp add: erase_def map_end_def Let_def map_erase_it_find[OF d1] map_erase_key_filter[OF d2])
qed

lemma bimap_ok_erase: "bimap_ok b \<Longrightarrow> bimap_ok (erase b k)"
  by (auto simp: erase_filter bimap_ok_def map_ok_filter split: option.splits)

lemma erase_absent: "k \<notin> fst ` set (m_map b) \<Longrightarrow> erase b k = b"
  by (simp add: erase_def map_end_def map_find_end_iff)

lemma erase_present:
  assumes "bimap_ok b" and "map_of (m_map b) k = Some v"
  shows "m_map (erase b k) = filter (\<lambda>p. fst p \<noteq> k) (m_map b)"
    and "m_mapInversed (erase b k) = filter (\<lambda>p. fst p \<noteq> v) (m_mapInversed b)"
  using assms by (simp_all add: erase_filter)

lemma getValue_insert:
  "getValue (insert_bimap b k v) k' = (if k' = k then Inr v else getValue b k')"
  by (simp add: getValue_def insert_bimap_def Let_def map_at_map_of map_of_map_assign)

lemma getKey_insert:
  "getKey (insert_bimap b k v) v' = (if v' = v then Inr k else getKey b v')"
  by (simp add: getKey_def insert_bimap_def Let_def map_at_map_of map_of_map_assign)

lemma size_insert:
  "bimap_ok b \<Longrightarrow>
   size_bimap (insert_bimap b k v) =
     (if k \<in> fst ` set (m_map b) then size_bimap b else Suc (size_bimap b))"
  by (simp add: size_bimap_def insert_bimap_def Let_def bimap_ok_def length_map_assign)

lemma keys_insert: "fst ` set (m_map (insert_bimap b k v)) = insert k (fst ` set (m_map b))"
  by (simp add: insert_bimap_def Let_def keys_map_assign)

lemma Bimap_loop_foldl:
  "Bimap_loop b ps = foldl (\<lambda>b (k, v). insert_bimap b k v) b ps"
  by (induction ps arbitrary: b) (simp_all add: insert_node_def case_prod_beta)

lemma Bimap_loop_getValue:
  "getValue (Bimap_loop b ps) k =
     (case map_of (rev ps) k of None \<Rightarrow> getValue b k | Some v \<Rightarrow> Inr v)"
proof (induction ps arbitrary: b)
  case Nil
  show ?case by simp
next
  case (Cons p ps)
  show ?case
    by (cases p) (simp add: Cons insert_node_def getValue_insert map_add_def split: option.splits)
qed

lemma Bimap_loop_getKey:
  "getKey (Bimap_loop b ps) v =
     (case map_of (rev (map prod.swap ps)) v of None \<Rightarrow> getKey b v | Some k \<Rightarrow> Inr k)"
proof (induction ps arbitrary: b)
  case Nil
  show ?case by simp
next
  case (Cons p ps)
  show ?case
    by (cases p) (simp add: Cons insert_node_def getKey_insert map_add_def split: option.splits)
qed

lemma getValue_nil: "getValue \<lparr>m_map = [], m_mapInversed = []\<rparr> k = Inl OutOfRange"
  by (simp add: getValue_def map_at_def map_end_def)

lemma ascending_drop:
  "e = length (m_map b) \<Longrightarrow> ascending b it e = drop it (m_map b)"
proof (induction b it e rule: ascending.induct)
  case (1 b it e)
  show ?case
  proof (cases "it < e")
    case True
    with 1 show ?thesis
      by (subst ascending.simps) (simp add: deref_def Cons_nth_drop_Suc)
  next
    case False
    with 1 show ?thesis by (subst ascending.simps) simp
  qed
qed

lemma descending_take:
  "r \<le> length (m_map b) \<Longrightarrow> descending b r 0 = rev (take r (m_map b))"
proof (induction r)
  case 0
  show ?case by (subst descending.simps) simp
next
  case (Suc r)
  then show ?case
    by (subst descending.simps) (simp add: rderef_def take_Suc_conv_app_nth)
qed

lemma mirrored_default: "mirrored Bimap_default"
  by (simp add: mirrored_def bimap_ok_default) (simp add: Bimap_default_def clear_def)

lemma mirrored_insert:
  assumes "mirrored b"
    and "getValue b k = Inl OutOfRange \<or> getValue b k = Inr v"
    and "getKey b v = Inl OutOfRange \<or> getKey b v = Inr k"
  shows "mirrored (insert_bimap b k v)"
proof -
  from assms(1) have ok: "bimap_ok b"
    and m: "\<And>k v. map_of (m_map b) k = Some v \<longleftrightarrow> map_of (m_mapInversed b) v = Some k"
    by (simp_all add: mirrored_def)
  from assms(2) have fk: "map_of (m_map b) k = None \<or> map_of (m_map b) k = Some v"
    by (simp add: getValue_def map_at_map_of split: option.splits)
  from assms(3) have fv: "map_of (m_mapInversed b) v = None \<or> map_of (m_mapInversed b) v = Some k"
    by (simp add: getKey_def map_at_map_of split: option.splits)
  have "map_of (map_assign (m_map b) k v) k' = Some v'
        \<longleftrightarrow> map_of (map_assign (m_mapInversed b) v k) v' = Some k'" for k' v'
    using fk fv m[of k' v'] m[of k v'] m[of k' v]
    by (auto simp: map_of_map_assign)
  with bimap_ok_insert[OF ok, of k v] show ?thesis
    by (simp add: mirrored_def insert_bimap_def Let_def)
qed

lemma mirrored_erase:
  assumes "mirrored b"
  shows "mirrored (erase b k)"
proof (cases "map_of (m_map b) k")
  case None
  then have "k \<notin> fst ` set (m_map b)" by (simp add: map_of_eq_None_iff)
  with assms show ?thesis by (simp add: erase_absent)
next
  case (Some v)
  from assms have ok: "bimap_ok b"
    and m: "\<And>k v. map_of (m_map b) k = Some v \<longleftrightarrow> map_of (m_mapInversed b) v = Some k"
    by (simp_all add: mirrored_def)
  have "map_of (m_map (erase b k)) k' = Some v'
        \<longleftrightarrow> map_of (m_mapInversed (erase b k)) v' = Some k'" for k' v'
    using Some m[of k' v'] m[of k v'] m[of k' v] m[of k v]
    by (auto simp: erase_present[OF ok Some] map_of_filter_key)
  with bimap_ok_erase[OF ok, of k] show ?thesis by (simp add: mirrored_def)
qed

lemma mirrored_run:
  "mirrored b \<Longrightarrow> collision_free b ops \<Longrightarrow> mirrored (foldl apply_op b ops)"
proof (induction ops arbitrary: b)
  case Nil
  then show ?case by simp
next
  case (Cons x ops)
  then show ?case by (cases x) (simp_all add: mirrored_insert mirrored_erase)
qed

lemma collision_free_take: "collision_free b ops \<Longrightarrow> collision_free b (take n ops)"
proof (induction ops arbitrary: b n)
  case Nil
  then show ?case by simp
next
  case (Cons x ops)
  then show ?case by (cases n; cases x) simp_all
qed

lemma mirrored_length:
  assumes "mirrored b"
  shows "length (m_map b) = length (m_mapInversed b)"
proof -
  from assms have d1: "distinct (map fst (m_map b))" and d2: "distinct (map fst (m_mapInversed b))"
    and m: "\<And>k v. map_of (m_map b) k = Some v \<longleftrightarrow> map_of (m_mapInversed b) v = Some k"
    by (simp_all add: mirrored_def bimap_ok_def map_ok_distinct)
  have "set (m_mapInversed b) = prod.swap ` set (m_map b)"
  proof (rule set_eqI)
    fix q :: "'b \<times> 'a"
    obtain v k where q: "q = (v, k)" by (cases q)
    have "(v, k) \<in> set (m_mapInversed b) \<longleftrightarrow> (k, v) \<in> set (m_map b)"
      using m[of k v] by (simp add: map_of_eq_Some_iff[OF d1] map_of_eq_Some_iff[OF d2])
    then show "q \<in> set (m_mapInversed b) \<longleftrightarrow> q \<in> prod.swap ` set (m_map b)"
      unfolding q by force
  qed
  then have "card (set (m_mapInversed b)) = card (set (m_map b))"
    by (simp add: card_image)
  moreover from d1 have "distinct (m_map b)" by (simp add: distinct_map)
  moreover from d2 have "distinct (m_mapInversed b)" by (simp add: distinct_map)
  ultimately show ?thesis by (simp add: distinct_card)
qed

text \<open>Every state the public operations can produce is well formed.\<close>

lemma bimap_ok_clear: "bimap_ok (clear b)"
  by (simp add: bimap_ok_def clear_def map_ok_def)

lemma bimap_ok_foldl: "bimap_ok b \<Longrightarrow> bimap_ok (foldl apply_op b ops)"
proof (induction ops arbitrary: b)
  case Nil
  then show ?case by simp
next
  case (Cons x ops)
  then show ?case by (cases x) (simp_all add: bimap_ok_insert bimap_ok_erase)
qed

lemma bimap_ok_run: "bimap_ok (run ops)"
  unfolding run_def using bimap_ok_default by (rule bimap_ok_foldl)

lemma bimap_ok_loop: "bimap_ok b \<Longrightarrow> bimap_ok (Bimap_loop b args)"
  by (induction args arbitrary: b) (simp_all add: insert_node_def bimap_ok_insert)

lemma bimap_ok_init: "bimap_ok (Bimap_init args)"
  unfolding Bimap_init_def by (rule bimap_ok_loop) (simp add: bimap_ok_def map_ok_def)

section \<open>Claims\<close>

text \<open>
  C7. After \<^verbatim>\<open>clear()\<close>, \<^verbatim>\<open>empty()\<close> is true, \<^verbatim>\<open>size()\<close> is 0, and
  \<^verbatim>\<open>getValue(k)\<close> and \<^verbatim>\<open>getKey(v)\<close> throw for every key and every value, in
  particular for those that were present before the call.
\<close>

theorem clear_resets:
  "empty_bimap (clear b) \<and> size_bimap (clear b) = 0
   \<and> getValue (clear b) k = Inl OutOfRange \<and> getKey (clear b) v = Inl OutOfRange"
  by (simp add: clear_def empty_bimap_def size_bimap_def getValue_def getKey_def
      map_at_def map_end_def)

text \<open>
  C4. \<^verbatim>\<open>getValue(key)\<close> returns the value stored under \<open>key\<close> in the forward map and
  throws exactly when \<open>key\<close> has no node there; \<^verbatim>\<open>getKey(value)\<close> does the same on
  the reverse map. Both methods are \<^verbatim>\<open>const\<close>: they are functions of the state and
  return no new state.
\<close>

theorem lookup_contract:
  assumes "bimap_ok b"
  shows "(getValue b k = Inr v \<longleftrightarrow> (k, v) \<in> set (m_map b))
       \<and> (getValue b k = Inl OutOfRange \<longleftrightarrow> k \<notin> fst ` set (m_map b))
       \<and> (getKey b v = Inr k \<longleftrightarrow> (v, k) \<in> set (m_mapInversed b))
       \<and> (getKey b v = Inl OutOfRange \<longleftrightarrow> v \<notin> fst ` set (m_mapInversed b))"
proof -
  from assms have d1: "distinct (map fst (m_map b))"
    and d2: "distinct (map fst (m_mapInversed b))"
    by (simp_all add: bimap_ok_def map_ok_distinct)
  show ?thesis
    by (simp add: getValue_def getKey_def map_at_Inl_iff map_at_Inr_mem[OF d1] map_at_Inr_mem[OF d2])
qed

text \<open>
  Witness of C4 on the fixture, at key 2 and value TWO.
\<close>

theorem lookup_contract_witness:
  "bimap_ok m_mapNumberToString
   \<and> (getValue m_mapNumberToString 2 = Inr ''TWO'' \<longleftrightarrow> (2, ''TWO'') \<in> set (m_map m_mapNumberToString))
   \<and> (getValue m_mapNumberToString 2 = Inl OutOfRange \<longleftrightarrow> 2 \<notin> fst ` set (m_map m_mapNumberToString))
   \<and> (getKey m_mapNumberToString ''TWO'' = Inr 2 \<longleftrightarrow> (''TWO'', 2) \<in> set (m_mapInversed m_mapNumberToString))
   \<and> (getKey m_mapNumberToString ''TWO'' = Inl OutOfRange \<longleftrightarrow> ''TWO'' \<notin> fst ` set (m_mapInversed m_mapNumberToString))"
proof -
  have h: "bimap_ok m_mapNumberToString" by code_simp
  show ?thesis using h lookup_contract[OF h, of 2 "''TWO''"] by simp
qed

text \<open>
  C5. When \<open>k\<close> is present with value \<open>v\<close>, \<^verbatim>\<open>erase(k)\<close> leaves \<open>k\<close> absent from
  the forward map and \<open>v\<close> absent from the reverse map; when \<open>k\<close> is absent the state is
  returned as it is; erasing \<open>k\<close> a second time changes nothing. \<^verbatim>\<open>erase\<close> has no
  failure branch.
\<close>

theorem erase_contract:
  assumes "bimap_ok b"
  shows "(getValue b k = Inr v \<longrightarrow>
            getValue (erase b k) k = Inl OutOfRange \<and> getKey (erase b k) v = Inl OutOfRange
            \<and> k \<notin> fst ` set (m_map (erase b k)) \<and> v \<notin> fst ` set (m_mapInversed (erase b k)))
       \<and> (getValue b k = Inl OutOfRange \<longrightarrow> erase b k = b)
       \<and> erase (erase b k) k = erase b k"
proof (intro conjI impI)
  assume "getValue b k = Inr v"
  then have mv: "map_of (m_map b) k = Some v" by (simp add: getValue_def map_at_Inr_iff)
  show k: "k \<notin> fst ` set (m_map (erase b k))"
    by (auto simp: erase_present(1)[OF assms mv])
  show v: "v \<notin> fst ` set (m_mapInversed (erase b k))"
    by (auto simp: erase_present(2)[OF assms mv])
  from k show "getValue (erase b k) k = Inl OutOfRange" by (simp add: getValue_def map_at_Inl_iff)
  from v show "getKey (erase b k) v = Inl OutOfRange" by (simp add: getKey_def map_at_Inl_iff)
next
  assume "getValue b k = Inl OutOfRange"
  then have "k \<notin> fst ` set (m_map b)" by (simp add: getValue_def map_at_Inl_iff)
  then show "erase b k = b" by (rule erase_absent)
next
  have "k \<notin> fst ` set (m_map (erase b k))"
  proof (cases "map_of (m_map b) k")
    case None
    then have "k \<notin> fst ` set (m_map b)" by (simp add: map_of_eq_None_iff)
    then show ?thesis by (simp add: erase_absent)
  next
    case (Some w)
    show ?thesis by (auto simp: erase_present(1)[OF assms Some])
  qed
  then show "erase (erase b k) k = erase b k" by (rule erase_absent)
qed

text \<open>
  Witness of C5 on the fixture: key 2 is present, key 99 is absent.
\<close>

theorem erase_contract_witness:
  "bimap_ok m_mapNumberToString \<and> getValue m_mapNumberToString 2 = Inr ''TWO''
   \<and> getValue (erase m_mapNumberToString 2) 2 = Inl OutOfRange \<and> getKey (erase m_mapNumberToString 2) ''TWO'' = Inl OutOfRange
   \<and> getValue m_mapNumberToString 99 = Inl OutOfRange \<and> erase m_mapNumberToString 99 = m_mapNumberToString
   \<and> erase (erase m_mapNumberToString 2) 2 = erase m_mapNumberToString 2"
proof -
  have h: "bimap_ok m_mapNumberToString" by code_simp
  have p: "getValue m_mapNumberToString 2 = Inr ''TWO''" by code_simp
  have a: "getValue m_mapNumberToString 99 = Inl OutOfRange" by code_simp
  show ?thesis
    using h p a erase_contract[OF h, where k = 2 and v = "''TWO''"]
      erase_contract[OF h, where k = 99]
    by simp
qed

text \<open>
  C6. \<^verbatim>\<open>insert(key, value)\<close> raises \<^verbatim>\<open>size()\<close> by one when neither the key nor the
  value is present, and leaves it unchanged when the key is present.
\<close>

theorem insert_size:
  assumes "bimap_ok b"
  shows "(getValue b k = Inl OutOfRange \<and> getKey b v = Inl OutOfRange \<longrightarrow>
            size_bimap (insert_bimap b k v) = size_bimap b + 1)
       \<and> (getValue b k \<noteq> Inl OutOfRange \<longrightarrow>
            size_bimap (insert_bimap b k v) = size_bimap b)"
proof -
  from assms have ok: "map_ok (m_map b)" by (simp add: bimap_ok_def)
  have "size_bimap (insert_bimap b k v) = length (map_assign (m_map b) k v)"
    by (simp add: size_bimap_def insert_bimap_def Let_def)
  then show ?thesis
    by (simp add: length_map_assign[OF ok] getValue_def map_at_Inl_iff size_bimap_def)
qed

text \<open>
  Witness of C6 on the fixture: (4, FOUR) is new, key 2 is present.
\<close>

theorem insert_size_witness:
  "bimap_ok m_mapNumberToString \<and> getValue m_mapNumberToString 4 = Inl OutOfRange \<and> getKey m_mapNumberToString ''FOUR'' = Inl OutOfRange
   \<and> size_bimap (insert_bimap m_mapNumberToString 4 ''FOUR'') = size_bimap m_mapNumberToString + 1
   \<and> getValue m_mapNumberToString 2 \<noteq> Inl OutOfRange
   \<and> size_bimap (insert_bimap m_mapNumberToString 2 ''DEUX'') = size_bimap m_mapNumberToString"
proof -
  have h: "bimap_ok m_mapNumberToString" by code_simp
  have a: "getValue m_mapNumberToString 4 = Inl OutOfRange" "getKey m_mapNumberToString ''FOUR'' = Inl OutOfRange" by code_simp+
  have p: "getValue m_mapNumberToString 2 \<noteq> Inl OutOfRange" by code_simp
  show ?thesis
    using h a p insert_size[OF h, where k = 4 and v = "''FOUR''"]
      insert_size[OF h, where k = 2 and v = "''DEUX''"]
    by simp
qed

text \<open>
  C10. When \<open>k\<close> is present with value \<open>v\<close>, \<^verbatim>\<open>erase(k)\<close> changes the result of
  \<^verbatim>\<open>getValue\<close> at no other key and the result of \<^verbatim>\<open>getKey\<close> at no other value.
\<close>

theorem erase_frame:
  assumes "bimap_ok b" and "getValue b k = Inr v"
  shows "(k' \<noteq> k \<longrightarrow> getValue (erase b k) k' = getValue b k')
       \<and> (v' \<noteq> v \<longrightarrow> getKey (erase b k) v' = getKey b v')"
proof -
  from assms(2) have mv: "map_of (m_map b) k = Some v" by (simp add: getValue_def map_at_Inr_iff)
  show ?thesis
    by (simp add: getValue_def getKey_def map_at_map_of erase_present[OF assms(1) mv]
        map_of_filter_key)
qed

text \<open>
  Witness of C10 on the fixture: erasing key 2 keeps key 3 and value ONE.
\<close>

theorem erase_frame_witness:
  "bimap_ok m_mapNumberToString \<and> getValue m_mapNumberToString 2 = Inr ''TWO''
   \<and> getValue (erase m_mapNumberToString 2) 3 = getValue m_mapNumberToString 3 \<and> getKey (erase m_mapNumberToString 2) ''ONE'' = getKey m_mapNumberToString ''ONE''"
proof -
  have h: "bimap_ok m_mapNumberToString" by code_simp
  have p: "getValue m_mapNumberToString 2 = Inr ''TWO''" by code_simp
  show ?thesis
    using h p erase_frame[OF h p, where k' = 3 and v' = "''ONE''"] by simp
qed

text \<open>
  C2. The claim: for distinct values \<open>v1\<close>, \<open>v2\<close>, \<^verbatim>\<open>insert(k, v1)\<close> then
  \<^verbatim>\<open>insert(k, v2)\<close> leaves \<^verbatim>\<open>size()\<close> unchanged, makes \<^verbatim>\<open>getValue(k)\<close> return \<open>v2\<close>, and
  makes \<^verbatim>\<open>getKey(v1)\<close> throw unless another key maps to \<open>v1\<close>. The code departs from it:
  after \<^verbatim>\<open>insert(1, "A")\<close> and \<^verbatim>\<open>insert(1, "B")\<close> on the empty bimap the size stays 1 and
  key 1, the only key, maps to B, yet the reverse node of A is still there and
  \<^verbatim>\<open>getKey("A")\<close> returns 1; it even outlives \<^verbatim>\<open>erase(1)\<close>, after which the container is
  empty and \<^verbatim>\<open>getKey("A")\<close> still returns 1.
\<close>

theorem same_key_twice_stale_entry:
  "size_bimap (insert_bimap Bimap_default (1::int) ''A'') = 1
   \<and> size_bimap (insert_bimap (insert_bimap Bimap_default (1::int) ''A'') 1 ''B'') = 1
   \<and> m_map (insert_bimap (insert_bimap Bimap_default (1::int) ''A'') 1 ''B'') = [(1, ''B'')]
   \<and> getValue (insert_bimap (insert_bimap Bimap_default (1::int) ''A'') 1 ''B'') 1 = Inr ''B''
   \<and> getKey (insert_bimap (insert_bimap Bimap_default (1::int) ''A'') 1 ''B'') ''A'' = Inr 1
   \<and> getKey (insert_bimap (insert_bimap Bimap_default (1::int) ''A'') 1 ''B'') ''A''
       \<noteq> Inl OutOfRange
   \<and> empty_bimap (erase (insert_bimap (insert_bimap Bimap_default (1::int) ''A'') 1 ''B'') 1)
   \<and> size_bimap (erase (insert_bimap (insert_bimap Bimap_default (1::int) ''A'') 1 ''B'') 1) = 0
   \<and> getKey (erase (insert_bimap (insert_bimap Bimap_default (1::int) ''A'') 1 ''B'') 1) ''A''
       = Inr 1"
  by code_simp

text \<open>
  C3 as stated fails: after \<^verbatim>\<open>insert(1, "A")\<close> and \<^verbatim>\<open>insert(2, "A")\<close> on the empty
  bimap, \<^verbatim>\<open>getValue(1)\<close> returns A.
\<close>

theorem same_value_twice_counterexample:
  "getValue (insert_bimap (insert_bimap Bimap_default (1::int) ''A'') 2 ''A'') 1 = Inr ''A''
   \<and> getValue (insert_bimap (insert_bimap Bimap_default (1::int) ''A'') 2 ''A'') 1
       \<noteq> Inl OutOfRange"
  by code_simp

text \<open>
  C3, amended. For distinct keys \<open>k1\<close>, \<open>k2\<close>: \<^verbatim>\<open>insert(k1, v)\<close> then
  \<^verbatim>\<open>insert(k2, v)\<close> makes \<^verbatim>\<open>getKey(v)\<close> return \<open>k2\<close> and \<^verbatim>\<open>getValue(k2)\<close> return
  \<open>v\<close>; the forward node of \<open>k1\<close> is kept, so \<^verbatim>\<open>getValue(k1)\<close> still returns \<open>v\<close>.
\<close>

theorem same_value_twice:
  assumes "k1 \<noteq> k2"
  shows "getKey (insert_bimap (insert_bimap b k1 v) k2 v) v = Inr k2
       \<and> getValue (insert_bimap (insert_bimap b k1 v) k2 v) k2 = Inr v
       \<and> getValue (insert_bimap (insert_bimap b k1 v) k2 v) k1 = Inr v"
  using assms by (simp add: getValue_insert getKey_insert)

text \<open>
  Witness of amended C3 on the fixture, at keys 1 and 2.
\<close>

theorem same_value_twice_witness:
  "(1::int) \<noteq> 2
   \<and> getKey (insert_bimap (insert_bimap m_mapNumberToString 1 ''X'') 2 ''X'') ''X'' = Inr 2
   \<and> getValue (insert_bimap (insert_bimap m_mapNumberToString 1 ''X'') 2 ''X'') 2 = Inr ''X''
   \<and> getValue (insert_bimap (insert_bimap m_mapNumberToString 1 ''X'') 2 ''X'') 1 = Inr ''X''"
proof -
  have d: "(1::int) \<noteq> 2" by simp
  show ?thesis using d same_value_twice[OF d, of m_mapNumberToString "''X''"] by simp
qed

text \<open>
  C8. The constructor from a sequence of pairs yields the state reached from the empty
  bimap by \<^verbatim>\<open>insert(k, v)\<close> for each pair in order; \<^verbatim>\<open>getValue(k)\<close> then returns the
  value of the last pair with key \<open>k\<close>; the fixture has size 3 and each of its pairs is
  found in both directions.
\<close>

theorem construct_is_insert_sequence:
  "Bimap_init ps = spec_construct ps
   \<and> getValue (Bimap_init ps) k =
       (case map_of (rev ps) k of None \<Rightarrow> Inl OutOfRange | Some v \<Rightarrow> Inr v)
   \<and> size_bimap m_mapNumberToString = 3
   \<and> getValue m_mapNumberToString 1 = Inr ''ONE'' \<and> getValue m_mapNumberToString 2 = Inr ''TWO''
   \<and> getValue m_mapNumberToString 3 = Inr ''THREE''
   \<and> getKey m_mapNumberToString ''ONE'' = Inr 1 \<and> getKey m_mapNumberToString ''TWO'' = Inr 2
   \<and> getKey m_mapNumberToString ''THREE'' = Inr 3"
proof -
  have "Bimap_init ps = spec_construct ps"
    by (simp add: Bimap_init_def spec_construct_def Bimap_loop_foldl Bimap_default_def clear_def)
  moreover have "getValue (Bimap_init ps) k =
       (case map_of (rev ps) k of None \<Rightarrow> Inl OutOfRange | Some v \<Rightarrow> Inr v)"
    by (simp add: Bimap_init_def Bimap_loop_getValue getValue_nil split: option.splits)
  moreover have "size_bimap m_mapNumberToString = 3" by code_simp
  moreover have "getValue m_mapNumberToString 1 = Inr ''ONE''" "getValue m_mapNumberToString 2 = Inr ''TWO''"
    "getValue m_mapNumberToString 3 = Inr ''THREE''" by code_simp+
  moreover have "getKey m_mapNumberToString ''ONE'' = Inr 1" "getKey m_mapNumberToString ''TWO'' = Inr 2"
    "getKey m_mapNumberToString ''THREE'' = Inr 3" by code_simp+
  ultimately show ?thesis by simp
qed

text \<open>
  C8 at a sequence that repeats key 1: the later pair wins.
\<close>

theorem construct_is_insert_sequence_witness:
  "getValue (Bimap_init [(1::int, ''A''), (2, ''C''), (1, ''B'')]) 1 = Inr ''B''
   \<and> Bimap_init [(1::int, ''A''), (2, ''C''), (1, ''B'')]
       = spec_construct [(1::int, ''A''), (2, ''C''), (1, ''B'')]"
proof (intro conjI)
  show "getValue (Bimap_init [(1::int, ''A''), (2, ''C''), (1, ''B'')]) 1 = Inr ''B''"
    using construct_is_insert_sequence
      [of "[(1::int, ''A''), (2, ''C''), (1, ''B'')]" 1, THEN conjunct2, THEN conjunct1]
    by simp
  show "Bimap_init [(1::int, ''A''), (2, ''C''), (1, ''B'')]
       = spec_construct [(1::int, ''A''), (2, ''C''), (1, ''B'')]"
    by (rule construct_is_insert_sequence[THEN conjunct1])
qed

text \<open>
  C9. In every state, the traversal from \<^verbatim>\<open>begin()\<close> to \<^verbatim>\<open>end()\<close> visits exactly the
  pairs \<open>(k, v)\<close> with \<^verbatim>\<open>getValue(k) = v\<close>, once each, in strictly ascending key order; the
  traversal from \<^verbatim>\<open>rbegin()\<close> to \<^verbatim>\<open>rend()\<close> visits the same pairs in the reverse, strictly
  descending, order; on an empty container \<^verbatim>\<open>begin()\<close> equals \<^verbatim>\<open>end()\<close>.
\<close>

theorem traversal_order:
  assumes "bimap_ok b"
  shows "set (ascending b (begin_bimap b) (end_bimap b)) = {(k, v). getValue b k = Inr v}
       \<and> sorted_wrt (<) (map fst (ascending b (begin_bimap b) (end_bimap b)))
       \<and> length (ascending b (begin_bimap b) (end_bimap b)) = size_bimap b
       \<and> descending b (rbegin b) (rend b) = rev (ascending b (begin_bimap b) (end_bimap b))
       \<and> sorted_wrt (>) (map fst (descending b (rbegin b) (rend b)))
       \<and> (empty_bimap b \<longrightarrow> begin_bimap b = end_bimap b)"
proof -
  from assms have ok: "map_ok (m_map b)" by (simp add: bimap_ok_def)
  then have d: "distinct (map fst (m_map b))" by (rule map_ok_distinct)
  have a: "ascending b (begin_bimap b) (end_bimap b) = m_map b"
    by (simp add: ascending_drop begin_bimap_def end_bimap_def map_end_def)
  have r: "descending b (rbegin b) (rend b) = rev (m_map b)"
    by (simp add: descending_take rbegin_def rend_def map_end_def)
  have s: "set (m_map b) = {(k, v). getValue b k = Inr v}"
    by (auto simp: getValue_def map_at_Inr_mem[OF d])
  have "sorted_wrt (>) (map fst (rev (m_map b)))"
    using ok by (simp add: map_ok_def rev_map[symmetric] sorted_wrt_rev)
  moreover have "empty_bimap b \<longrightarrow> begin_bimap b = end_bimap b"
    by (simp add: empty_bimap_def begin_bimap_def end_bimap_def map_end_def)
  ultimately show ?thesis
    unfolding a r using ok s by (simp add: map_ok_def size_bimap_def)
qed

text \<open>
  Witness of C9: the two traversals of the fixture, and the fixture once cleared.
\<close>

theorem traversal_order_witness:
  "bimap_ok m_mapNumberToString
   \<and> ascending m_mapNumberToString (begin_bimap m_mapNumberToString) (end_bimap m_mapNumberToString)
       = [(1, ''ONE''), (2, ''TWO''), (3, ''THREE'')]
   \<and> descending m_mapNumberToString (rbegin m_mapNumberToString) (rend m_mapNumberToString)
       = [(3, ''THREE''), (2, ''TWO''), (1, ''ONE'')]
   \<and> sorted_wrt (<) (map fst (ascending m_mapNumberToString
         (begin_bimap m_mapNumberToString) (end_bimap m_mapNumberToString)))
   \<and> sorted_wrt (>) (map fst (descending m_mapNumberToString
         (rbegin m_mapNumberToString) (rend m_mapNumberToString)))
   \<and> empty_bimap (clear m_mapNumberToString)
   \<and> begin_bimap (clear m_mapNumberToString) = end_bimap (clear m_mapNumberToString)"
proof -
  have h: "bimap_ok m_mapNumberToString" by code_simp
  have h0: "bimap_ok (clear m_mapNumberToString)" by code_simp
  have e: "empty_bimap (clear m_mapNumberToString)" by code_simp
  have a: "ascending m_mapNumberToString (begin_bimap m_mapNumberToString)
      (end_bimap m_mapNumberToString) = [(1, ''ONE''), (2, ''TWO''), (3, ''THREE'')]"
    by code_simp
  have d: "descending m_mapNumberToString (rbegin m_mapNumberToString)
      (rend m_mapNumberToString) = [(3, ''THREE''), (2, ''TWO''), (1, ''ONE'')]"
    by code_simp
  show ?thesis
    using h e a d traversal_order[OF h] traversal_order[OF h0] by simp
qed

text \<open>
  C1 as stated fails. After \<^verbatim>\<open>insert(1, "A")\<close>, \<^verbatim>\<open>insert(2, "A")\<close> from the empty bimap,
  \<^verbatim>\<open>getValue(1)\<close> is A but \<^verbatim>\<open>getKey("A")\<close> is 2, and the forward map has two nodes, the
  reverse map one. After \<^verbatim>\<open>insert(1, "A")\<close>, \<^verbatim>\<open>insert(1, "B")\<close> the forward map has one
  node and the reverse map two.
\<close>

theorem consistency_counterexample:
  "getValue (run [Insert (1::int) ''A'', Insert 2 ''A'']) 1 = Inr ''A''
   \<and> getKey (run [Insert (1::int) ''A'', Insert 2 ''A'']) ''A'' = Inr 2
   \<and> size_bimap (run [Insert (1::int) ''A'', Insert 2 ''A'']) = 2
   \<and> length (m_mapInversed (run [Insert (1::int) ''A'', Insert 2 ''A''])) = 1
   \<and> size_bimap (run [Insert (1::int) ''A'', Insert 1 ''B'']) = 1
   \<and> length (m_mapInversed (run [Insert (1::int) ''A'', Insert 1 ''B''])) = 2"
  by code_simp

text \<open>
  C1, amended. For every collision-free sequence of insert and erase operations run from
  the empty bimap, after each operation (that is, after every prefix of the sequence):
  \<^verbatim>\<open>getValue(k) = v\<close> implies \<^verbatim>\<open>getKey(v) = k\<close> and conversely, and \<^verbatim>\<open>size()\<close> equals the
  count of forward nodes, which equals the count of reverse nodes.
\<close>

theorem consistency_without_collisions:
  assumes "collision_free Bimap_default ops"
  shows "(getValue (run (take n ops)) k = Inr v \<longrightarrow> getKey (run (take n ops)) v = Inr k)
       \<and> (getKey (run (take n ops)) v = Inr k \<longrightarrow> getValue (run (take n ops)) k = Inr v)
       \<and> size_bimap (run (take n ops)) = length (m_map (run (take n ops)))
       \<and> length (m_map (run (take n ops))) = length (m_mapInversed (run (take n ops)))"
proof -
  from assms have "collision_free Bimap_default (take n ops)" by (rule collision_free_take)
  with mirrored_default have mir: "mirrored (run (take n ops))"
    unfolding run_def by (rule mirrored_run)
  then have "map_of (m_map (run (take n ops))) k = Some v
             \<longleftrightarrow> map_of (m_mapInversed (run (take n ops))) v = Some k"
    by (simp add: mirrored_def)
  with mirrored_length[OF mir] show ?thesis
    by (simp add: getValue_def getKey_def map_at_Inr_iff size_bimap_def)
qed

text \<open>
  Witness of amended C1: a collision-free sequence with a fresh insert, an erase, the
  re-use of an erased value, a repeated insert and the erase of an absent key, observed
  after its fourth operation.
\<close>

theorem consistency_without_collisions_witness:
  "collision_free Bimap_default
     [Insert (1::int) ''A'', Insert 2 ''B'', Erase 1, Insert 3 ''A'', Insert 3 ''A'', Erase 7]
   \<and> getValue (run (take 4
       [Insert (1::int) ''A'', Insert 2 ''B'', Erase 1, Insert 3 ''A'', Insert 3 ''A'', Erase 7]))
       3 = Inr ''A''
   \<and> getKey (run (take 4
       [Insert (1::int) ''A'', Insert 2 ''B'', Erase 1, Insert 3 ''A'', Insert 3 ''A'', Erase 7]))
       ''A'' = Inr 3
   \<and> length (m_map (run (take 4
       [Insert (1::int) ''A'', Insert 2 ''B'', Erase 1, Insert 3 ''A'', Insert 3 ''A'', Erase 7])))
     = length (m_mapInversed (run (take 4
       [Insert (1::int) ''A'', Insert 2 ''B'', Erase 1, Insert 3 ''A'', Insert 3 ''A'', Erase 7])))"
proof -
  have c: "collision_free Bimap_default
      [Insert (1::int) ''A'', Insert 2 ''B'', Erase 1, Insert 3 ''A'', Insert 3 ''A'', Erase 7]"
    by code_simp
  have g: "getValue (run (take 4
      [Insert (1::int) ''A'', Insert 2 ''B'', Erase 1, Insert 3 ''A'', Insert 3 ''A'', Erase 7]))
      3 = Inr ''A''" by code_simp
  show ?thesis
    using c g consistency_without_collisions[OF c, of 4 3 "''A''"] by blast
qed

end
